theory Spec2Isabelle
  imports Main "HOL-Library.Sublist" "HOL-Library.Word"
begin

section \<open>The image front-end of DALI: dali/image/image.cc\<close>

text \<open>
  The file holds two things: a classifier of file paths by extension
  (\<open>ListSupportedExtensions\<close>, \<open>HasKnownImageExtension\<close>) and the decode-once
  life cycle of the class \<open>Image\<close>.

  Conventions of the embedding.
  \<^item> A \<open>std::string\<close> is a \<open>string\<close>: a list of bytes that may contain the byte 0.
  \<^item> A \<open>const char *\<close> that points to a terminated string is a \<open>string\<close> too; the
    terminator is implicit after the last byte of the list. The C library reads such a
    string up to its first byte 0 only, which \<open>c_str_bytes\<close> and \<open>strlen\<close> write out.
  \<^item> \<open>size_t\<close> is \<open>nat\<close>; \<open>std::string::npos\<close> is \<open>None\<close>. The two places
    where the source does arithmetic on \<open>size_t\<close> are commented where they occur.
  \<^item> The stream \<open>std::cerr\<close> is the string of the bytes written to it so far; a
    function that writes takes the stream and returns it extended.
  \<^item> The arrays \<open>kKnownImageExtensions\<close> and \<open>kSkipImageExtensions\<close> are declared
    in dali/image/image.h. They are parameters of the functions that read them.
\<close>

subsection \<open>C strings\<close>

definition NUL :: char where
  "NUL = CHR 0x00"

definition c_str_bytes :: "string \<Rightarrow> string" where
  \<comment> \<open>the bytes a C library function sees: those before the first byte 0\<close>
  "c_str_bytes s = takeWhile (\<lambda>c. c \<noteq> NUL) s"

definition strlen :: "string \<Rightarrow> nat" where
  "strlen s = length (c_str_bytes s)"

definition byte_at :: "string \<Rightarrow> char" where
  \<comment> \<open>the byte a \<open>const char *\<close> points to; past the last byte stands the terminator\<close>
  "byte_at s = (case s of [] \<Rightarrow> NUL | c # _ \<Rightarrow> c)"

fun strncmp :: "string \<Rightarrow> string \<Rightarrow> nat \<Rightarrow> int" where
  "strncmp s1 s2 0 = 0"
| "strncmp s1 s2 (Suc n) =
     (if byte_at s1 \<noteq> byte_at s2
      then int (of_char (byte_at s1)) - int (of_char (byte_at s2))
      else if byte_at s1 = NUL then 0
      else strncmp (tl s1) (tl s2) n)"

definition tolower :: "char \<Rightarrow> char" where
  \<comment> \<open>\<open>::tolower\<close> in the "C" locale: only the letters A to Z change\<close>
  "tolower c =
     (if (65::nat) \<le> of_char c \<and> of_char c \<le> (90::nat)
      then char_of (of_char c + (32::nat)) else c)"

subsection \<open>std::string::rfind\<close>

text \<open>
  \<open>path_low.rfind(ext)\<close> with \<open>ext\<close> a \<open>const char *\<close> searches for the
  \<open>strlen(ext)\<close> bytes of \<open>ext\<close>, starting at position \<open>size() - strlen(ext)\<close>
  and going down to position 0; it gives the first position, in that order, where the
  bytes of the string equal those of \<open>ext\<close>, and \<open>npos\<close> when there is none or when
  \<open>ext\<close> is longer than the string.
\<close>

fun rfind_from :: "string \<Rightarrow> string \<Rightarrow> nat \<Rightarrow> nat option" where
  "rfind_from s t 0 = (if take (length t) s = t then Some 0 else None)"
| "rfind_from s t (Suc pos) =
     (if take (length t) (drop (Suc pos) s) = t then Some (Suc pos)
      else rfind_from s t pos)"

definition rfind :: "string \<Rightarrow> string \<Rightarrow> nat option" where
  "rfind s ext =
     (if strlen ext \<le> length s
      then rfind_from s (c_str_bytes ext) (length s - strlen ext)
      else None)"

subsection \<open>ListSupportedExtensions\<close>

text \<open>
  The loop over \<open>i\<close> with the stream \<open>ss\<close> as its accumulator. The test
  \<open>i != known_extensions_count - 1\<close> is evaluated only for \<open>i\<close> below the count, so
  the count is at least 1 there and the subtraction is the same on \<open>size_t\<close> and on
  \<open>nat\<close>. Writing a \<open>const char *\<close> to a stream writes its bytes before the
  terminator.
\<close>

function ListSupportedExtensions_loop :: "string list \<Rightarrow> nat \<Rightarrow> string \<Rightarrow> string" where
  "ListSupportedExtensions_loop kKnownImageExtensions i ss =
     (if i < length kKnownImageExtensions
      then ListSupportedExtensions_loop kKnownImageExtensions (Suc i)
             (ss @ c_str_bytes (kKnownImageExtensions ! i)
                @ (if i \<noteq> length kKnownImageExtensions - 1 then '', '' else []))
      else ss)"
  by pat_completeness auto
termination
  by (relation "measure (\<lambda>(exts, i, ss). length exts - i)") auto

declare ListSupportedExtensions_loop.simps [simp del]

definition ListSupportedExtensions :: "string list \<Rightarrow> string" where
  "ListSupportedExtensions kKnownImageExtensions =
     ListSupportedExtensions_loop kKnownImageExtensions 0 []"

subsection \<open>HasKnownImageExtension\<close>

fun skip_loop :: "string list \<Rightarrow> string \<Rightarrow> bool" where
  \<comment> \<open>the first loop: does some entry of the skip list stop the function?\<close>
  "skip_loop [] image_path = False"
| "skip_loop (ext # exts) image_path =
     (if strlen ext = strlen image_path \<and> strncmp ext image_path (strlen ext) = 0
      then True
      else skip_loop exts image_path)"

text \<open>
  In the second loop \<open>rfind\<close> gives a position of at most
  \<open>size() - strlen(ext)\<close>, so the sum \<open>pos + strlen(ext)\<close> does not exceed the size
  of the path and is the same on \<open>size_t\<close> and on \<open>nat\<close>.
\<close>

fun known_loop :: "string list \<Rightarrow> string \<Rightarrow> bool" where
  \<comment> \<open>the second loop: does some entry of the known list end the lower-cased path?\<close>
  "known_loop [] path_low = False"
| "known_loop (ext # exts) path_low =
     (case rfind path_low ext of
        None \<Rightarrow> known_loop exts path_low
      | Some pos \<Rightarrow>
          if pos + strlen ext = length path_low then True
          else known_loop exts path_low)"

definition endl :: string where
  "endl = [CHR 0x0A]"

definition warning_text :: "string list \<Rightarrow> string \<Rightarrow> string" where
  "warning_text kKnownImageExtensions image_path =
     ''[Warning]: File '' @ image_path
       @ '' has extension that is not supproted by the decoder. ''
       @ ''Supported extensions: '' @ ListSupportedExtensions kKnownImageExtensions @ ''.''"

definition HasKnownImageExtension ::
    "string list \<Rightarrow> string list \<Rightarrow> string \<Rightarrow> string \<Rightarrow> bool \<times> string" where
  \<comment> \<open>known list, skip list, path, \<open>std::cerr\<close> before; result and \<open>std::cerr\<close> after\<close>
  "HasKnownImageExtension kKnownImageExtensions kSkipImageExtensions image_path cerr =
     (let path_low = map tolower image_path in
      if skip_loop kSkipImageExtensions image_path then (False, cerr)
      else if known_loop kKnownImageExtensions path_low then (True, cerr)
      else (False, cerr @ warning_text kKnownImageExtensions image_path @ endl))"

subsection \<open>The listing of extensions, as the specification words it\<close>

text \<open>
  Two functions that are not in the source: the specification describes the result of
  \<open>ListSupportedExtensions\<close> as the entries separated by a separator, and as a string
  that splits back into the entries. \<open>separated_by\<close> and \<open>split_on\<close> say what
  these words mean; the theorems compare the function of the source with them.
\<close>

fun separated_by :: "string \<Rightarrow> string list \<Rightarrow> string" where
  "separated_by sep [] = []"
| "separated_by sep [x] = x"
| "separated_by sep (x # y # ys) = x @ sep @ separated_by sep (y # ys)"

function split_from :: "string \<Rightarrow> string \<Rightarrow> string \<Rightarrow> string list" where
  \<comment> \<open>separator, the piece read so far, the text still to read; leftmost matches first\<close>
  "split_from sep piece [] = [piece]"
| "split_from sep piece (c # cs) =
     (if sep \<noteq> [] \<and> prefix sep (c # cs)
      then piece # split_from sep [] (drop (length sep) (c # cs))
      else split_from sep (piece @ [c]) cs)"
  by pat_completeness auto
termination
  by (relation "measure (\<lambda>(sep, piece, text). length text)") auto

definition split_on :: "string \<Rightarrow> string \<Rightarrow> string list" where
  "split_on sep text = split_from sep [] text"

section \<open>The class Image\<close>

text \<open>
  The class is declared in dali/image/image.h, which is not among the sources; image.cc
  holds its constructor and its four public methods. The fields, their types and their
  initial values follow the specification's data model.
\<close>

type_synonym uint8 = "8 word"

text \<open>
  Modelled from the spec: the enumeration \<open>DALIImageType\<close> of dali/image/image.h is
  missing. It is "an enumerated tag describing the desired output color interpretation
  (e.g., RGB, grayscale)", handed on to the decoder and never inspected by the class.
\<close>

datatype DALIImageType = DALI_RGB | DALI_GRAY

text \<open>
  Modelled from the spec: the type \<open>Image::Shape\<close> of dali/image/image.h is missing.
  It is "an ordered sequence of non-negative integer dimensions".
\<close>

type_synonym Shape = "nat list"

text \<open>
  Modelled from the spec: the fields of \<open>Image\<close> are declared in dali/image/image.h,
  which is missing. An image is the "composition of EncodedImageView, ImageColorType, a
  decoded boolean flag (initially false), an optional DecodedImageBuffer (absent until
  decode), and an optional Shape (absent until decode)". The encoded view is the pair
  of \<open>m_encoded_image\<close> and \<open>m_length\<close>; the pointer \<open>m_encoded_image\<close> is modelled
  by the bytes of the borrowed buffer, which the caller keeps alive and unchanged. In
  \<open>m_shape\<close> and \<open>m_decoded_image\<close>, \<open>None\<close> is the absent value a field has until
  \<open>Decode\<close> assigns it (for \<open>m_decoded_image\<close>, the null \<open>shared_ptr\<close>).
  A name cannot end with an underscore here: the field \<open>decoded_\<close> of the source
  is \<open>m_decoded\<close>, and so for the others.
\<close>

record Image =
  m_encoded_image :: "uint8 list"
  m_length :: nat
  m_image_type :: DALIImageType
  m_decoded :: bool
  m_shape :: "Shape option"
  m_decoded_image :: "uint8 list option"

text \<open>
  What a method can throw. \<open>DALI_ENFORCE(cond, msg)\<close>, a macro of a header that is not
  among the sources, throws when \<open>cond\<close> is false: this is the specification's
  invalid-state error, kept with the message given to the macro. An exception that
  leaves an extension point passes through the method unchanged: \<open>ImplError\<close>.
\<close>

datatype 'e error = InvalidState string | ImplError 'e

text \<open>
  The extension points \<open>DecodeImpl\<close> and \<open>PeekShapeImpl\<close> are pure virtual; the
  formats implement them elsewhere. They are parameters here: functions of their
  arguments that return a value or throw (\<open>Inl\<close>), and that assign no field of the
  image they are called on.
\<close>

type_synonym 'e DecodeImpl_t =
  "DALIImageType \<Rightarrow> uint8 list \<Rightarrow> nat \<Rightarrow> 'e + (uint8 list \<times> Shape)"

type_synonym 'e PeekShapeImpl_t =
  "uint8 list \<Rightarrow> nat \<Rightarrow> 'e + Shape"

text \<open>
  Modelled from the spec: the constructor in image.cc initialises the encoded view and
  the color type; the initial values of the other three fields are given in
  dali/image/image.h, which is missing. The flag is "initially false", the buffer and the
  shape are "absent until decode".
\<close>

definition Image_ctor :: "uint8 list \<Rightarrow> nat \<Rightarrow> DALIImageType \<Rightarrow> Image" where
  \<comment> \<open>the constructor \<open>Image::Image\<close>\<close>
  "Image_ctor encoded_buffer len image_type =
     \<lparr> m_encoded_image = encoded_buffer, m_length = len, m_image_type = image_type,
       m_decoded = False, m_shape = None, m_decoded_image = None \<rparr>"

text \<open>
  Every method takes the object and returns its result, or the exception it throws,
  together with the object as the call leaves it.
\<close>

definition Decode :: "'e DecodeImpl_t \<Rightarrow> Image \<Rightarrow> ('e error + unit) \<times> Image" where
  "Decode DecodeImpl this =
     (if \<not> \<not> m_decoded this
      then (Inl (InvalidState ''Called decode for already decoded image''), this)
      else case DecodeImpl (m_image_type this) (m_encoded_image this) (m_length this) of
             Inl e \<Rightarrow> (Inl (ImplError e), this)
           | Inr decoded \<Rightarrow>
               (Inr (), this\<lparr> m_decoded_image := Some (fst decoded),
                               m_shape := Some (snd decoded),
                               m_decoded := True \<rparr>))"

definition GetImage :: "Image \<Rightarrow> ('e error + uint8 list option) \<times> Image" where
  "GetImage this =
     (if \<not> m_decoded this
      then (Inl (InvalidState ''Image not decoded. Run Decode()''), this)
      else (Inr (m_decoded_image this), this))"

definition PeekShape :: "'e PeekShapeImpl_t \<Rightarrow> Image \<Rightarrow> ('e error + Shape) \<times> Image" where
  "PeekShape PeekShapeImpl this =
     (case PeekShapeImpl (m_encoded_image this) (m_length this) of
        Inl e \<Rightarrow> (Inl (ImplError e), this)
      | Inr shape \<Rightarrow> (Inr shape, this))"

definition GetShape :: "Image \<Rightarrow> ('e error + Shape option) \<times> Image" where
  "GetShape this =
     (if \<not> m_decoded this
      then (Inl (InvalidState ''Image not decoded. Run Decode()''), this)
      else (Inr (m_shape this), this))"

subsection \<open>A sample format\<close>

text \<open>
  One implementation of the two extension points, to run the class on concrete bytes:
  an empty input is rejected; otherwise the decoded buffer is the input twice and the
  shape is 1 by \<open>len\<close> by 2.
\<close>

definition sample_DecodeImpl :: "unit DecodeImpl_t" where
  "sample_DecodeImpl image_type buf len =
     (if len = 0 then Inl () else Inr (buf @ buf, [1, len, 2]))"

definition sample_PeekShapeImpl :: "unit PeekShapeImpl_t" where
  "sample_PeekShapeImpl buf len = (if len = 0 then Inl () else Inr [1, len, 2])"

section \<open>Properties of the classifier\<close>

subsection \<open>C strings and the skip list\<close>

lemma byte_at_simps: "byte_at [] = NUL" "byte_at (c # cs) = c"
  by (simp_all add: byte_at_def)

lemma c_str_bytes_simps:
  "c_str_bytes [] = []"
  "c_str_bytes (c # cs) = (if c = NUL then [] else c # c_str_bytes cs)"
  by (simp_all add: c_str_bytes_def)

lemma c_str_bytes_idem: "c_str_bytes (c_str_bytes s) = c_str_bytes s"
  by (simp add: c_str_bytes_def)

lemma c_str_bytes_cut: "c_str_bytes (c_str_bytes s @ NUL # rest) = c_str_bytes s"
  by (induction s) (simp_all add: c_str_bytes_def)

text \<open>
  \<open>strncmp\<close> gives 0 exactly when the two strings, each with its terminator, agree on
  their first \<open>n\<close> bytes.
\<close>

lemma strncmp_zero_iff:
  "(strncmp s1 s2 n = 0) = (take n (c_str_bytes s1 @ [NUL]) = take n (c_str_bytes s2 @ [NUL]))"
proof (induction s1 s2 n rule: strncmp.induct)
  case (1 s1 s2)
  show ?case by simp
next
  case (2 s1 s2 n)
  show ?case
  proof (cases "byte_at s1 = byte_at s2")
    case False
    then show ?thesis
      by (cases s1; cases s2) (auto simp: byte_at_simps c_str_bytes_simps)
  next
    case True
    show ?thesis
    proof (cases "byte_at s1 = NUL")
      case nul: True
      with True show ?thesis
        by (cases s1; cases s2) (auto simp: byte_at_simps c_str_bytes_simps)
    next
      case nonnul: False
      with True 2 show ?thesis
        by (cases s1; cases s2) (auto simp: byte_at_simps c_str_bytes_simps)
    qed
  qed
qed

lemma skip_test_iff:
  "(strlen ext = strlen p \<and> strncmp ext p (strlen ext) = 0)
     = (c_str_bytes ext = c_str_bytes p)"
  by (auto simp: strncmp_zero_iff strlen_def)

lemma skip_loop_iff:
  "skip_loop skip p = (c_str_bytes p \<in> c_str_bytes ` set skip)"
  by (induction skip) (auto simp: skip_test_iff)

subsection \<open>rfind and the known list\<close>

lemma rfind_from_first:
  "take (length t) (drop pos s) = t \<Longrightarrow> rfind_from s t pos = Some pos"
  by (cases pos) simp_all

lemma rfind_from_le:
  "rfind_from s t pos = Some q \<Longrightarrow> q \<le> pos \<and> take (length t) (drop q s) = t"
  by (induction pos) (auto split: if_splits)

lemma suffix_take_drop:
  "length t \<le> length s \<Longrightarrow>
   suffix t s = (take (length t) (drop (length s - length t) s) = t)"
  by (auto simp: suffix_def) (metis append_take_drop_id)

text \<open>The test of the second loop is a test for a suffix.\<close>

lemma rfind_suffix:
  "(case rfind s ext of None \<Rightarrow> False | Some pos \<Rightarrow> pos + strlen ext = length s)
     = suffix (c_str_bytes ext) s"
proof (cases "strlen ext \<le> length s")
  case False
  then show ?thesis
    by (auto simp: rfind_def strlen_def dest: suffix_length_le)
next
  case True
  show ?thesis
  proof (cases "suffix (c_str_bytes ext) s")
    case yes: True
    with True have "rfind s ext = Some (length s - strlen ext)"
      by (simp add: rfind_def strlen_def rfind_from_first suffix_take_drop)
    with True yes show ?thesis by simp
  next
    case no: False
    { fix pos assume r: "rfind s ext = Some pos" and e: "pos + strlen ext = length s"
      from r True have "take (length (c_str_bytes ext)) (drop pos s) = c_str_bytes ext"
        by (auto simp: rfind_def dest: rfind_from_le)
      moreover from e have "pos = length s - length (c_str_bytes ext)"
        by (simp add: strlen_def)
      ultimately have "suffix (c_str_bytes ext) s"
        using True by (simp add: suffix_take_drop strlen_def) }
    with no show ?thesis by (auto split: option.splits)
  qed
qed

lemma known_loop_iff:
  "known_loop known path_low = (\<exists>ext \<in> set known. suffix (c_str_bytes ext) path_low)"
proof (induction known)
  case Nil
  show ?case by simp
next
  case (Cons ext exts)
  from rfind_suffix [where s = path_low and ext = ext] Cons show ?case
    by (auto split: option.splits)
qed

text \<open>The three ways out of \<open>HasKnownImageExtension\<close>, without the loops.\<close>

lemma HasKnownImageExtension_cases:
  "HasKnownImageExtension known skip path cerr =
     (if c_str_bytes path \<in> c_str_bytes ` set skip then (False, cerr)
      else if \<exists>ext \<in> set known. suffix (c_str_bytes ext) (map tolower path)
      then (True, cerr)
      else (False, cerr @ warning_text known path @ endl))"
  by (simp add: HasKnownImageExtension_def skip_loop_iff known_loop_iff)

subsection \<open>The listing\<close>

lemma ListSupportedExtensions_loop_eq:
  "i \<le> length ks \<Longrightarrow>
   ListSupportedExtensions_loop ks i ss
     = ss @ separated_by '', '' (map c_str_bytes (drop i ks))"
proof (induction ks i ss rule: ListSupportedExtensions_loop.induct)
  case (1 ks i ss)
  show ?case
  proof (cases "i < length ks")
    case False
    with 1(2) show ?thesis
      by (subst ListSupportedExtensions_loop.simps) simp
  next
    case True
    then have d: "drop i ks = ks ! i # drop (Suc i) ks"
      by (simp add: Cons_nth_drop_Suc)
    show ?thesis
    proof (cases "i = length ks - 1")
      case last: True
      with True have "drop (Suc i) ks = []" by simp
      with True last d 1(1) show ?thesis
        by (subst ListSupportedExtensions_loop.simps) simp
    next
      case notlast: False
      with True have "Suc i < length ks" by simp
      then have "drop (Suc i) ks = ks ! Suc i # drop (Suc (Suc i)) ks"
        by (simp add: Cons_nth_drop_Suc)
      with True notlast d 1(1) show ?thesis
        by (subst ListSupportedExtensions_loop.simps) simp
    qed
  qed
qed

lemma ListSupportedExtensions_eq:
  "ListSupportedExtensions ks = separated_by '', '' (map c_str_bytes ks)"
  by (simp add: ListSupportedExtensions_def ListSupportedExtensions_loop_eq)

lemma split_from_last:
  "\<not> sublist '', '' e \<Longrightarrow> split_from '', '' piece e = [piece @ e]"
proof (induction e arbitrary: piece)
  case Nil
  show ?case by simp
next
  case (Cons c e)
  from Cons.prems have np: "\<not> prefix '', '' (c # e)"
    using prefix_imp_sublist by blast
  from Cons.prems have "\<not> sublist '', '' e"
    by (auto simp: sublist_Cons_right)
  with Cons.IH [of "piece @ [c]"] np show ?case by simp
qed

lemma split_from_entry:
  "\<not> sublist '', '' e \<Longrightarrow>
   split_from '', '' piece (e @ '', '' @ rest) = (piece @ e) # split_from '', '' [] rest"
proof (induction e arbitrary: piece)
  case Nil
  show ?case by simp
next
  case (Cons c e)
  have np: "\<not> prefix '', '' (c # e @ '', '' @ rest)"
  proof
    assume "prefix '', '' (c # e @ '', '' @ rest)"
    then have "prefix '', '' (c # e)"
      by (cases e) auto
    with Cons.prems show False
      using prefix_imp_sublist by blast
  qed
  from Cons.prems have "\<not> sublist '', '' e"
    by (auto simp: sublist_Cons_right)
  with Cons.IH [of "piece @ [c]"] np show ?case by simp
qed

lemma split_separated:
  "es \<noteq> [] \<Longrightarrow> \<forall>e \<in> set es. \<not> sublist '', '' e \<Longrightarrow>
   split_from '', '' [] (separated_by '', '' es) = es"
proof (induction es)
  case Nil
  then show ?case by simp
next
  case (Cons x xs)
  show ?case
  proof (cases xs)
    case Nil
    with Cons.prems show ?thesis by (simp add: split_from_last)
  next
    case tail: (Cons y ys)
    with Cons.prems Cons.IH
    have "split_from '', '' [] (separated_by '', '' xs) = xs" by simp
    with tail Cons.prems show ?thesis
      using split_from_entry [of x "[]" "separated_by '', '' (y # ys)"] by simp
  qed
qed

lemma warning_extends: "cerr @ warning_text known path @ endl \<noteq> cerr"
  by (simp add: endl_def)

lemma newline_free_separated:
  "\<forall>e \<in> set es. CHR 0x0A \<notin> set e \<Longrightarrow> CHR 0x0A \<notin> set (separated_by '', '' es)"
  by (induction "'', ''" es rule: separated_by.induct) auto

subsection \<open>Claims about the classifier\<close>

text \<open>
  Claim C1, as amended. For every path whose lower-cased form ends with the bytes of some
  entry of the known list, and whose bytes before its first byte 0 are not, as a whole,
  an entry of the skip list, \<open>HasKnownImageExtension\<close> returns true and writes
  nothing. In particular it returns true for \<open>photo.JPG\<close> when the known list contains
  \<open>jpg\<close> and the skip list does not contain \<open>photo.JPG\<close>. (The claim as written
  asks only that the whole path not be a skip-list entry; the source compares the path as
  a C string.)
\<close>

theorem HasKnownImageExtension_known_suffix:
  "((\<exists>ext \<in> set known. suffix (c_str_bytes ext) (map tolower path))
      \<and> c_str_bytes path \<notin> c_str_bytes ` set skip
     \<longrightarrow> HasKnownImageExtension known skip path cerr = (True, cerr))
   \<and> (''jpg'' \<in> set known \<and> ''photo.JPG'' \<notin> c_str_bytes ` set skip
     \<longrightarrow> HasKnownImageExtension known skip ''photo.JPG'' cerr = (True, cerr))"
proof -
  have low: "map tolower ''photo.JPG'' = ''photo.jpg''" by code_simp
  have c1: "c_str_bytes ''jpg'' = ''jpg''" by code_simp
  have c2: "c_str_bytes ''photo.JPG'' = ''photo.JPG''" by code_simp
  have s: "suffix ''jpg'' ''photo.jpg''" by code_simp
  have "''jpg'' \<in> set known \<Longrightarrow>
        \<exists>ext \<in> set known. suffix (c_str_bytes ext) (map tolower ''photo.JPG'')"
    using low c1 s by (intro bexI [of _ "''jpg''"]) simp_all
  then show ?thesis
    by (simp add: HasKnownImageExtension_cases c2)
qed

text \<open>
  The theorem at two inputs: a mixed-case \<open>.PnG\<close> path, and the scenario of the
  specification.
\<close>

theorem HasKnownImageExtension_known_suffix_witness:
  "(\<exists>ext \<in> set [''.jpg'', ''.png'']. suffix (c_str_bytes ext) (map tolower ''dir/cat.PnG''))
   \<and> c_str_bytes ''dir/cat.PnG'' \<notin> c_str_bytes ` set [''thumbs.db'']
   \<and> HasKnownImageExtension [''.jpg'', ''.png''] [''thumbs.db''] ''dir/cat.PnG'' ''log''
        = (True, ''log'')
   \<and> ''jpg'' \<in> set [''jpg''] \<and> ''photo.JPG'' \<notin> c_str_bytes ` set [''thumbs.db'']
   \<and> HasKnownImageExtension [''jpg''] [''thumbs.db''] ''photo.JPG'' [] = (True, [])"
proof -
  have h1: "\<exists>ext \<in> set [''.jpg'', ''.png''].
              suffix (c_str_bytes ext) (map tolower ''dir/cat.PnG'')"
    by code_simp
  have h2: "c_str_bytes ''dir/cat.PnG'' \<notin> c_str_bytes ` set [''thumbs.db'']"
    by code_simp
  have h3: "''jpg'' \<in> set [''jpg''] \<and> ''photo.JPG'' \<notin> c_str_bytes ` set [''thumbs.db'']"
    by code_simp
  from h1 h2 h3 show ?thesis
    using HasKnownImageExtension_known_suffix
        [of "[''.jpg'', ''.png'']" "''dir/cat.PnG''" "[''thumbs.db'']" "''log''"]
      HasKnownImageExtension_known_suffix
        [of "[''jpg'']" "''photo.JPG''" "[''thumbs.db'']" "[]"]
    by blast
qed

text \<open>
  Claim C1 as written fails: the path \<open>thumbs.db\<close>, a byte 0, \<open>photo.JPG\<close> ends in
  \<open>jpg\<close> once lower-cased and is not the skip-list entry \<open>thumbs.db\<close>, yet the
  function returns false.
\<close>

theorem HasKnownImageExtension_known_suffix_counterexample:
  "suffix ''jpg'' (map tolower (''thumbs.db'' @ [CHR 0x00] @ ''photo.JPG''))
   \<and> ''thumbs.db'' @ [CHR 0x00] @ ''photo.JPG'' \<noteq> ''thumbs.db''
   \<and> HasKnownImageExtension [''jpg''] [''thumbs.db'']
         (''thumbs.db'' @ [CHR 0x00] @ ''photo.JPG'') [] = (False, [])"
  by code_simp

text \<open>
  Claim C2. For every path that is, byte for byte and in the case it is given, an entry
  of the skip list, \<open>HasKnownImageExtension\<close> returns false and writes nothing to
  \<open>std::cerr\<close>, whatever the known list holds: the skip list is read first.
\<close>

theorem HasKnownImageExtension_skip_exact:
  "ext \<in> set skip \<Longrightarrow> path = c_str_bytes ext \<Longrightarrow>
   HasKnownImageExtension known skip path cerr = (False, cerr)"
proof -
  assume "ext \<in> set skip" and "path = c_str_bytes ext"
  then have "c_str_bytes path \<in> c_str_bytes ` set skip"
    by (simp add: c_str_bytes_idem)
  then show ?thesis by (simp add: HasKnownImageExtension_cases)
qed

text \<open>
  The theorem at \<open>thumbs.db\<close>, which is in the skip list and also ends with the known
  extension \<open>.db\<close>.
\<close>

theorem HasKnownImageExtension_skip_exact_witness:
  "''thumbs.db'' \<in> set [''.DS_Store'', ''thumbs.db'']
   \<and> ''thumbs.db'' = c_str_bytes ''thumbs.db''
   \<and> suffix ''.db'' (map tolower ''thumbs.db'')
   \<and> HasKnownImageExtension [''.jpg'', ''.db''] [''.DS_Store'', ''thumbs.db''] ''thumbs.db''
        ''log'' = (False, ''log'')"
proof -
  have h1: "''thumbs.db'' \<in> set [''.DS_Store'', ''thumbs.db'']" by simp
  have h2: "''thumbs.db'' = c_str_bytes ''thumbs.db''" by code_simp
  have h3: "suffix ''.db'' (map tolower ''thumbs.db'')" by code_simp
  from HasKnownImageExtension_skip_exact [OF h1 h2] h1 h2 h3 show ?thesis by blast
qed

text \<open>
  Claim C3, as amended. For every path whose bytes before its first byte 0 are not, as a
  whole, an entry of the skip list, and whose lower-cased form ends with no entry of the
  known list, \<open>HasKnownImageExtension\<close> returns false and appends to \<open>std::cerr\<close>
  exactly one warning: the fixed words, the path as given, the known extensions in list
  order separated by comma and space, a full stop, and one end of line. Something is
  written in this case and in no other. The warning is a single line when neither the
  path nor a known extension contains a line feed.
\<close>

theorem HasKnownImageExtension_warning:
  "(c_str_bytes path \<notin> c_str_bytes ` set skip
      \<and> \<not> (\<exists>ext \<in> set known. suffix (c_str_bytes ext) (map tolower path))
     \<longrightarrow> HasKnownImageExtension known skip path cerr =
          (False,
           cerr @ ''[Warning]: File '' @ path
             @ '' has extension that is not supproted by the decoder. Supported extensions: ''
             @ separated_by '', '' (map c_str_bytes known) @ ''.'' @ [CHR 0x0A]))
   \<and> (snd (HasKnownImageExtension known skip path cerr) \<noteq> cerr) =
       (c_str_bytes path \<notin> c_str_bytes ` set skip
        \<and> \<not> (\<exists>ext \<in> set known. suffix (c_str_bytes ext) (map tolower path)))
   \<and> (CHR 0x0A \<notin> set path \<and> (\<forall>ext \<in> set known. CHR 0x0A \<notin> set (c_str_bytes ext))
     \<longrightarrow> CHR 0x0A \<notin> set (warning_text known path))"
proof (intro conjI impI)
  assume "c_str_bytes path \<notin> c_str_bytes ` set skip
      \<and> \<not> (\<exists>ext \<in> set known. suffix (c_str_bytes ext) (map tolower path))"
  then show "HasKnownImageExtension known skip path cerr =
          (False,
           cerr @ ''[Warning]: File '' @ path
             @ '' has extension that is not supproted by the decoder. Supported extensions: ''
             @ separated_by '', '' (map c_str_bytes known) @ ''.'' @ [CHR 0x0A])"
    by (simp add: HasKnownImageExtension_cases warning_text_def endl_def
        ListSupportedExtensions_eq)
next
  show "(snd (HasKnownImageExtension known skip path cerr) \<noteq> cerr) =
       (c_str_bytes path \<notin> c_str_bytes ` set skip
        \<and> \<not> (\<exists>ext \<in> set known. suffix (c_str_bytes ext) (map tolower path)))"
    using warning_extends [of cerr known path]
    by (simp add: HasKnownImageExtension_cases)
next
  assume "CHR 0x0A \<notin> set path \<and> (\<forall>ext \<in> set known. CHR 0x0A \<notin> set (c_str_bytes ext))"
  then show "CHR 0x0A \<notin> set (warning_text known path)"
    using newline_free_separated [of "map c_str_bytes known"]
    by (simp add: warning_text_def ListSupportedExtensions_eq)
qed

text \<open>The theorem at the scenario \<open>readme.txt\<close> of the specification.\<close>

theorem HasKnownImageExtension_warning_witness:
  "c_str_bytes ''readme.txt'' \<notin> c_str_bytes ` set [''thumbs.db'']
   \<and> \<not> (\<exists>ext \<in> set [''.jpg'', ''.png''].
           suffix (c_str_bytes ext) (map tolower ''readme.txt''))
   \<and> CHR 0x0A \<notin> set ''readme.txt''
   \<and> CHR 0x0A \<notin> set (c_str_bytes ''.jpg'') \<and> CHR 0x0A \<notin> set (c_str_bytes ''.png'')
   \<and> HasKnownImageExtension [''.jpg'', ''.png''] [''thumbs.db''] ''readme.txt'' [] =
       (False,
        ''[Warning]: File readme.txt has extension that is not supproted by the decoder. ''
          @ ''Supported extensions: .jpg, .png.'' @ [CHR 0x0A])
   \<and> CHR 0x0A \<notin> set (warning_text [''.jpg'', ''.png''] ''readme.txt'')"
proof -
  have h1: "c_str_bytes ''readme.txt'' \<notin> c_str_bytes ` set [''thumbs.db'']"
    by code_simp
  have h2: "\<not> (\<exists>ext \<in> set [''.jpg'', ''.png''].
                suffix (c_str_bytes ext) (map tolower ''readme.txt''))"
    by code_simp
  have h3: "CHR 0x0A \<notin> set ''readme.txt''
     \<and> (\<forall>ext \<in> set [''.jpg'', ''.png'']. CHR 0x0A \<notin> set (c_str_bytes ext))"
    by code_simp
  have e: "separated_by '', '' (map c_str_bytes [''.jpg'', ''.png'']) = ''.jpg, .png''"
    by code_simp
  from h1 h2 h3 e show ?thesis
    using HasKnownImageExtension_warning
        [of "''readme.txt''" "[''thumbs.db'']" "[''.jpg'', ''.png'']" "[]"]
    by simp
qed

text \<open>
  Claim C3 as written fails: the path \<open>thumbs.db\<close>, a byte 0, \<open>readme.txt\<close> is not
  the skip-list entry \<open>thumbs.db\<close> and ends with no known extension, yet nothing is
  written.
\<close>

theorem HasKnownImageExtension_warning_counterexample:
  "''thumbs.db'' @ [CHR 0x00] @ ''readme.txt'' \<noteq> ''thumbs.db''
   \<and> \<not> suffix ''jpg'' (map tolower (''thumbs.db'' @ [CHR 0x00] @ ''readme.txt''))
   \<and> HasKnownImageExtension [''jpg''] [''thumbs.db'']
         (''thumbs.db'' @ [CHR 0x00] @ ''readme.txt'') [] = (False, [])"
  by code_simp

text \<open>
  Claim C4. \<open>ListSupportedExtensions\<close> returns the entries of the known list in list
  order, separated by comma and space, with no separator after the last. Split on that
  separator, its result is the known list again, in order; this half needs what holds of
  an array of plain suffixes: it has an entry, and no entry contains the separator.
\<close>

theorem ListSupportedExtensions_listing:
  "ListSupportedExtensions known = separated_by '', '' (map c_str_bytes known)
   \<and> (known \<noteq> [] \<and> (\<forall>ext \<in> set known. \<not> sublist '', '' (c_str_bytes ext))
      \<longrightarrow> split_on '', '' (ListSupportedExtensions known) = map c_str_bytes known)"
  using split_separated [of "map c_str_bytes known"]
  by (simp add: ListSupportedExtensions_eq split_on_def)

text \<open>The theorem at a list of four extensions.\<close>

theorem ListSupportedExtensions_listing_witness:
  "[''.jpg'', ''.jpeg'', ''.png'', ''.bmp''] \<noteq> []
   \<and> \<not> sublist '', '' (c_str_bytes ''.jpg'') \<and> \<not> sublist '', '' (c_str_bytes ''.jpeg'')
   \<and> \<not> sublist '', '' (c_str_bytes ''.png'') \<and> \<not> sublist '', '' (c_str_bytes ''.bmp'')
   \<and> ListSupportedExtensions [''.jpg'', ''.jpeg'', ''.png'', ''.bmp'']
       = ''.jpg, .jpeg, .png, .bmp''
   \<and> split_on '', '' ''.jpg, .jpeg, .png, .bmp'' = [''.jpg'', ''.jpeg'', ''.png'', ''.bmp'']"
proof -
  have c: "map c_str_bytes [''.jpg'', ''.jpeg'', ''.png'', ''.bmp'']
             = [''.jpg'', ''.jpeg'', ''.png'', ''.bmp'']"
    by code_simp
  have h: "\<forall>ext \<in> set [''.jpg'', ''.jpeg'', ''.png'', ''.bmp''].
             \<not> sublist '', '' (c_str_bytes ext)"
    using c by (simp add: sublist_Cons_right)
  have ne: "[''.jpg'', ''.jpeg'', ''.png'', ''.bmp''] \<noteq> []" by simp
  from ListSupportedExtensions_listing [of "[''.jpg'', ''.jpeg'', ''.png'', ''.bmp'']"] c
  have l: "ListSupportedExtensions [''.jpg'', ''.jpeg'', ''.png'', ''.bmp'']
             = ''.jpg, .jpeg, .png, .bmp''"
    by simp
  from ListSupportedExtensions_listing [of "[''.jpg'', ''.jpeg'', ''.png'', ''.bmp'']"] ne h
  have "split_on '', '' (ListSupportedExtensions [''.jpg'', ''.jpeg'', ''.png'', ''.bmp''])
          = map c_str_bytes [''.jpg'', ''.jpeg'', ''.png'', ''.bmp'']"
    by blast
  with l c have "split_on '', '' ''.jpg, .jpeg, .png, .bmp''
                   = [''.jpg'', ''.jpeg'', ''.png'', ''.bmp'']"
    by simp
  with ne h l show ?thesis by simp
qed

text \<open>
  Claim C9. The first loop compares the path as a C string: the function returns false
  and writes nothing whenever the bytes of the path before its first byte 0 are an entry
  of the skip list. So for every entry of the skip list, the path made of that entry, a
  byte 0 and any further bytes is refused silently, although it is not equal to the
  entry.
\<close>

theorem HasKnownImageExtension_skip_c_string:
  "(c_str_bytes path \<in> c_str_bytes ` set skip
      \<longrightarrow> HasKnownImageExtension known skip path cerr = (False, cerr))
   \<and> (ext \<in> set skip
      \<longrightarrow> HasKnownImageExtension known skip (c_str_bytes ext @ NUL # rest) cerr = (False, cerr)
          \<and> c_str_bytes ext @ NUL # rest \<noteq> c_str_bytes ext)"
  by (auto simp: HasKnownImageExtension_cases c_str_bytes_cut)

text \<open>The theorem at \<open>thumbs.db\<close>, a byte 0, \<open>.jpg\<close>.\<close>

theorem HasKnownImageExtension_skip_c_string_witness:
  "''thumbs.db'' \<in> set [''thumbs.db'']
   \<and> c_str_bytes (''thumbs.db'' @ [CHR 0x00] @ ''.jpg'') \<in> c_str_bytes ` set [''thumbs.db'']
   \<and> HasKnownImageExtension [''.jpg''] [''thumbs.db''] (''thumbs.db'' @ [CHR 0x00] @ ''.jpg'') []
        = (False, [])
   \<and> ''thumbs.db'' @ [CHR 0x00] @ ''.jpg'' \<noteq> ''thumbs.db''"
proof -
  have h1: "''thumbs.db'' \<in> set [''thumbs.db'']" by simp
  have h2: "c_str_bytes (''thumbs.db'' @ [CHR 0x00] @ ''.jpg'')
              \<in> c_str_bytes ` set [''thumbs.db'']"
    by code_simp
  from h1 h2 show ?thesis
    using HasKnownImageExtension_skip_c_string
        [of "''thumbs.db'' @ [CHR 0x00] @ ''.jpg''" "[''thumbs.db'']" "[''.jpg'']" "[]"]
    by simp
qed

section \<open>Properties of the class Image\<close>

text \<open>What a call of \<open>Decode\<close> that returns has done.\<close>

lemma Decode_success:
  "Decode DecodeImpl this = (Inr (), this') \<Longrightarrow>
   \<not> m_decoded this \<and>
   (\<exists>buf shape.
      DecodeImpl (m_image_type this) (m_encoded_image this) (m_length this) = Inr (buf, shape)
      \<and> this' = this\<lparr> m_decoded_image := Some buf, m_shape := Some shape,
                        m_decoded := True \<rparr>)"
  by (auto simp: Decode_def split: if_splits sum.splits)

lemma sample_Decode:
  "Decode sample_DecodeImpl (Image_ctor [7, 9] 2 DALI_RGB) =
     (Inr (), \<lparr> m_encoded_image = [7, 9], m_length = 2, m_image_type = DALI_RGB,
                m_decoded = True, m_shape = Some [1, 2, 2],
                m_decoded_image = Some [7, 9, 7, 9] \<rparr>)"
  by (simp add: Decode_def Image_ctor_def sample_DecodeImpl_def)

text \<open>
  Claim C5. On every image on which \<open>Decode\<close> has returned, a second call of
  \<open>Decode\<close> throws the invalid-state error and leaves the image as the first call
  left it: the decoded buffer, the shape and every other field are unchanged.
\<close>

theorem Decode_twice:
  "Decode DecodeImpl this = (Inr (), this') \<Longrightarrow>
   Decode DecodeImpl this' =
     (Inl (InvalidState ''Called decode for already decoded image''), this')"
  by (drule Decode_success) (auto simp: Decode_def)

text \<open>The theorem on two bytes decoded by the sample format.\<close>

theorem Decode_twice_witness:
  "Decode sample_DecodeImpl (Image_ctor [7, 9] 2 DALI_RGB) =
     (Inr (), \<lparr> m_encoded_image = [7, 9], m_length = 2, m_image_type = DALI_RGB,
                m_decoded = True, m_shape = Some [1, 2, 2],
                m_decoded_image = Some [7, 9, 7, 9] \<rparr>)
   \<and> Decode sample_DecodeImpl
        \<lparr> m_encoded_image = [7, 9], m_length = 2, m_image_type = DALI_RGB,
          m_decoded = True, m_shape = Some [1, 2, 2], m_decoded_image = Some [7, 9, 7, 9] \<rparr> =
     (Inl (InvalidState ''Called decode for already decoded image''),
      \<lparr> m_encoded_image = [7, 9], m_length = 2, m_image_type = DALI_RGB,
        m_decoded = True, m_shape = Some [1, 2, 2], m_decoded_image = Some [7, 9, 7, 9] \<rparr>)"
proof -
  have h: "Decode sample_DecodeImpl (Image_ctor [7, 9] 2 DALI_RGB) =
     (Inr (), \<lparr> m_encoded_image = [7, 9], m_length = 2, m_image_type = DALI_RGB,
                m_decoded = True, m_shape = Some [1, 2, 2],
                m_decoded_image = Some [7, 9, 7, 9] \<rparr>)"
    by (rule sample_Decode)
  from h Decode_twice [OF h] show ?thesis by simp
qed

text \<open>
  Claim C6. On a freshly constructed image, \<open>GetImage\<close> and \<open>GetShape\<close> both throw
  the invalid-state error and leave the image unchanged. After a call of \<open>Decode\<close>
  that returned, \<open>GetImage\<close> returns the buffer and \<open>GetShape\<close> the shape that the
  decoder produced in that call.
\<close>

theorem getters_need_Decode:
  fixes DecodeImpl :: "'e DecodeImpl_t"
  shows
  "GetImage (Image_ctor encoded_buffer len image_type) =
     (Inl (InvalidState ''Image not decoded. Run Decode()'' :: 'e error),
      Image_ctor encoded_buffer len image_type)
   \<and> GetShape (Image_ctor encoded_buffer len image_type) =
     (Inl (InvalidState ''Image not decoded. Run Decode()'' :: 'e error),
      Image_ctor encoded_buffer len image_type)
   \<and> (Decode DecodeImpl this = (Inr (), this') \<longrightarrow>
        (\<exists>buf shape.
           DecodeImpl (m_image_type this) (m_encoded_image this) (m_length this)
             = Inr (buf, shape)
           \<and> GetImage this' = (Inr (Some buf) :: 'e error + uint8 list option, this')
           \<and> GetShape this' = (Inr (Some shape) :: 'e error + Shape option, this')))"
proof (intro conjI impI)
  show "GetImage (Image_ctor encoded_buffer len image_type) =
     (Inl (InvalidState ''Image not decoded. Run Decode()'' :: 'e error),
      Image_ctor encoded_buffer len image_type)"
    by (simp add: GetImage_def Image_ctor_def)
next
  show "GetShape (Image_ctor encoded_buffer len image_type) =
     (Inl (InvalidState ''Image not decoded. Run Decode()'' :: 'e error),
      Image_ctor encoded_buffer len image_type)"
    by (simp add: GetShape_def Image_ctor_def)
next
  assume "Decode DecodeImpl this = (Inr (), this')"
  from Decode_success [OF this]
  show "\<exists>buf shape.
           DecodeImpl (m_image_type this) (m_encoded_image this) (m_length this)
             = Inr (buf, shape)
           \<and> GetImage this' = (Inr (Some buf) :: 'e error + uint8 list option, this')
           \<and> GetShape this' = (Inr (Some shape) :: 'e error + Shape option, this')"
    by (auto simp: GetImage_def GetShape_def)
qed

text \<open>The theorem on two bytes decoded by the sample format.\<close>

theorem getters_need_Decode_witness:
  "Decode sample_DecodeImpl (Image_ctor [7, 9] 2 DALI_RGB) =
     (Inr (), \<lparr> m_encoded_image = [7, 9], m_length = 2, m_image_type = DALI_RGB,
                m_decoded = True, m_shape = Some [1, 2, 2],
                m_decoded_image = Some [7, 9, 7, 9] \<rparr>)
   \<and> fst (GetImage \<lparr> m_encoded_image = [7, 9], m_length = 2, m_image_type = DALI_RGB,
                m_decoded = True, m_shape = Some [1, 2, 2],
                m_decoded_image = Some [7, 9, 7, 9] \<rparr>)
       = (Inr (Some [7, 9, 7, 9]) :: unit error + uint8 list option)
   \<and> fst (GetShape \<lparr> m_encoded_image = [7, 9], m_length = 2, m_image_type = DALI_RGB,
                m_decoded = True, m_shape = Some [1, 2, 2],
                m_decoded_image = Some [7, 9, 7, 9] \<rparr>)
       = (Inr (Some [1, 2, 2]) :: unit error + Shape option)"
  using sample_Decode
    getters_need_Decode [of "[]" 0 DALI_RGB sample_DecodeImpl "Image_ctor [7, 9] 2 DALI_RGB"
      "\<lparr> m_encoded_image = [7, 9], m_length = 2, m_image_type = DALI_RGB,
                m_decoded = True, m_shape = Some [1, 2, 2],
                m_decoded_image = Some [7, 9, 7, 9] \<rparr>"]
  by (auto simp: Image_ctor_def sample_DecodeImpl_def)

text \<open>
  Claim C7. Take a freshly constructed image over some bytes, a decoder that decodes
  these bytes, and a header parser that gives for them the shape the decoder gives. Then
  \<open>PeekShape\<close> returns that shape before any decoding and leaves the image unchanged,
  \<open>Decode\<close> returns, and \<open>GetShape\<close> called afterwards returns the same shape.
\<close>

theorem PeekShape_agrees_with_GetShape:
  fixes DecodeImpl :: "'e DecodeImpl_t" and PeekShapeImpl :: "'e PeekShapeImpl_t"
  shows
  "DecodeImpl image_type encoded_buffer len = Inr (buf, shape) \<Longrightarrow>
   PeekShapeImpl encoded_buffer len = Inr shape \<Longrightarrow>
   PeekShape PeekShapeImpl (Image_ctor encoded_buffer len image_type)
     = (Inr shape, Image_ctor encoded_buffer len image_type)
   \<and> fst (Decode DecodeImpl (Image_ctor encoded_buffer len image_type)) = Inr ()
   \<and> fst (GetShape (snd (Decode DecodeImpl
             (snd (PeekShape PeekShapeImpl (Image_ctor encoded_buffer len image_type))))))
       = (Inr (Some shape) :: 'e error + Shape option)"
  by (simp add: PeekShape_def Decode_def GetShape_def Image_ctor_def)

text \<open>The theorem on three bytes and the sample format.\<close>

theorem PeekShape_agrees_with_GetShape_witness:
  "sample_DecodeImpl DALI_GRAY [1, 2, 3] 3 = Inr ([1, 2, 3, 1, 2, 3], [1, 3, 2])
   \<and> sample_PeekShapeImpl [1, 2, 3] 3 = Inr [1, 3, 2]
   \<and> fst (PeekShape sample_PeekShapeImpl (Image_ctor [1, 2, 3] 3 DALI_GRAY)) = Inr [1, 3, 2]
   \<and> fst (GetShape (snd (Decode sample_DecodeImpl
             (snd (PeekShape sample_PeekShapeImpl (Image_ctor [1, 2, 3] 3 DALI_GRAY))))))
       = (Inr (Some [1, 3, 2]) :: unit error + Shape option)"
proof -
  have h1: "sample_DecodeImpl DALI_GRAY [1, 2, 3] 3 = Inr ([1, 2, 3, 1, 2, 3], [1, 3, 2])"
    by (simp add: sample_DecodeImpl_def)
  have h2: "sample_PeekShapeImpl [1, 2, 3] 3 = Inr [1, 3, 2]"
    by (simp add: sample_PeekShapeImpl_def)
  from h1 h2
  have r: "PeekShape sample_PeekShapeImpl (Image_ctor [1, 2, 3] 3 DALI_GRAY)
       = (Inr [1, 3, 2], Image_ctor [1, 2, 3] 3 DALI_GRAY)
     \<and> fst (Decode sample_DecodeImpl (Image_ctor [1, 2, 3] 3 DALI_GRAY)) = Inr ()
     \<and> fst (GetShape (snd (Decode sample_DecodeImpl
             (snd (PeekShape sample_PeekShapeImpl (Image_ctor [1, 2, 3] 3 DALI_GRAY))))))
       = (Inr (Some [1, 3, 2]) :: unit error + Shape option)"
    by (rule PeekShape_agrees_with_GetShape
          [of sample_DecodeImpl DALI_GRAY "[1, 2, 3]" 3 "[1, 2, 3, 1, 2, 3]" "[1, 3, 2]"
            sample_PeekShapeImpl])
  then have "fst (PeekShape sample_PeekShapeImpl (Image_ctor [1, 2, 3] 3 DALI_GRAY))
               = Inr [1, 3, 2]"
    by (simp del: One_nat_def)
  with r h1 h2 show ?thesis by blast
qed

text \<open>
  Claim C8. \<open>PeekShape\<close> has no check of the state: in no state does it throw the
  invalid-state error, its result does not depend on the decoded flag, the stored shape
  or the stored buffer, and it returns the shape the header parser gives whenever the
  parser gives one. It assigns no field: the image after the call is the image before.
\<close>

theorem PeekShape_frame:
  "snd (PeekShape PeekShapeImpl this) = this
   \<and> fst (PeekShape PeekShapeImpl this) \<noteq> Inl (InvalidState msg)
   \<and> fst (PeekShape PeekShapeImpl
            (this\<lparr> m_decoded := b, m_shape := s, m_decoded_image := d \<rparr>))
       = fst (PeekShape PeekShapeImpl this)
   \<and> (PeekShapeImpl (m_encoded_image this) (m_length this) = Inr shape
        \<longrightarrow> PeekShape PeekShapeImpl this = (Inr shape, this))"
  by (simp add: PeekShape_def split: sum.splits)

text \<open>The theorem on a fresh image and on the same image once decoded.\<close>

theorem PeekShape_frame_witness:
  "sample_PeekShapeImpl [7, 9] 2 = Inr [1, 2, 2]
   \<and> PeekShape sample_PeekShapeImpl (Image_ctor [7, 9] 2 DALI_RGB)
       = (Inr [1, 2, 2], Image_ctor [7, 9] 2 DALI_RGB)
   \<and> PeekShape sample_PeekShapeImpl
        (snd (Decode sample_DecodeImpl (Image_ctor [7, 9] 2 DALI_RGB)))
       = (Inr [1, 2, 2], snd (Decode sample_DecodeImpl (Image_ctor [7, 9] 2 DALI_RGB)))"
proof -
  have h: "sample_PeekShapeImpl [7, 9] 2 = Inr [1, 2, 2]"
    by (simp add: sample_PeekShapeImpl_def)
  have e: "m_encoded_image (snd (Decode sample_DecodeImpl (Image_ctor [7, 9] 2 DALI_RGB)))
             = [7, 9]
     \<and> m_length (snd (Decode sample_DecodeImpl (Image_ctor [7, 9] 2 DALI_RGB))) = 2"
    by (simp add: sample_Decode)
  from h e show ?thesis
    using PeekShape_frame
        [of sample_PeekShapeImpl "Image_ctor [7, 9] 2 DALI_RGB" _ _ _ _ "[1, 2, 2]"]
      PeekShape_frame
        [of sample_PeekShapeImpl
          "snd (Decode sample_DecodeImpl (Image_ctor [7, 9] 2 DALI_RGB))" _ _ _ _ "[1, 2, 2]"]
    by (simp add: Image_ctor_def)
qed

text \<open>
  Claim C10. When \<open>Decode\<close> is called on an image that is not decoded and the decoder
  throws, \<open>Decode\<close> throws what the decoder threw and no field of the image has
  changed: the flag is still false, and a later call of \<open>Decode\<close> is not refused as
  already decoded.
\<close>

theorem Decode_failure_atomic:
  fixes DecodeImpl :: "'e DecodeImpl_t" and DecodeImpl' :: "'e DecodeImpl_t"
  shows
  "\<not> m_decoded this \<Longrightarrow>
   DecodeImpl (m_image_type this) (m_encoded_image this) (m_length this) = Inl e \<Longrightarrow>
   Decode DecodeImpl this = (Inl (ImplError e), this)
   \<and> fst (Decode DecodeImpl' (snd (Decode DecodeImpl this))) \<noteq> Inl (InvalidState msg)"
  by (simp add: Decode_def split: sum.splits)

text \<open>The theorem on an empty input, which the sample format rejects.\<close>

theorem Decode_failure_atomic_witness:
  "\<not> m_decoded (Image_ctor [] 0 DALI_RGB)
   \<and> sample_DecodeImpl DALI_RGB [] 0 = Inl ()
   \<and> Decode sample_DecodeImpl (Image_ctor [] 0 DALI_RGB)
       = (Inl (ImplError ()),
          \<lparr> m_encoded_image = [], m_length = 0, m_image_type = DALI_RGB,
            m_decoded = False, m_shape = None, m_decoded_image = None \<rparr>)"
proof -
  have h1: "\<not> m_decoded (Image_ctor [] 0 DALI_RGB)"
    by (simp add: Image_ctor_def)
  have h2: "sample_DecodeImpl (m_image_type (Image_ctor [] 0 DALI_RGB))
              (m_encoded_image (Image_ctor [] 0 DALI_RGB))
              (m_length (Image_ctor [] 0 DALI_RGB)) = Inl ()"
    by (simp add: Image_ctor_def sample_DecodeImpl_def)
  from h1 h2 show ?thesis
    using Decode_failure_atomic
        [of "Image_ctor [] 0 DALI_RGB" sample_DecodeImpl "()" sample_DecodeImpl "[]"]
    by (simp add: Image_ctor_def)
qed

end
